theory Spec2Isabelle
  imports Complex_Main "HOL-Library.Word"
begin

section \<open>UmbrellaChain (gymnax/environments/bsuite/umbrella\_chain.py)\<close>

text \<open>
  A shallow embedding of the class \<open>UmbrellaChain\<close>. Conventions of the model:
  \<^item> the fields annotated \<open>jnp.int32\<close> are \<open>32 word\<close>: \<open>+\<close>, \<open>-\<close> and \<open>*\<close> are the
    two's complement operations of the array library and wrap around; \<open>sint\<close> reads the
    signed value;
  \<^item> the fields annotated \<open>int\<close> (\<open>time\<close>, \<open>chain_length\<close>, \<open>max_steps_in_episode\<close>)
    are Python integers, hence \<open>int\<close>; \<open>state.time / params.chain_length\<close> is Python's
    true division, which raises \<open>ZeroDivisionError\<close> on a zero divisor;
  \<^item> the action is selected against \<open>state.has_umbrella\<close> by \<open>lax.select\<close>, which needs
    both branches of one element type, so it is a \<open>32 word\<close> as well;
  \<^item> the entries of an observation are float32 values in the source; the model keeps
    them as exact rationals, so the rounding to float32 is not part of it;
  \<^item> \<open>jax.random\<close> is a library outside the repository: its two operations are
    parameters of the model, collected in a record, and nothing is assumed about them;
  \<^item> \<open>n_distractor\<close> is a dimension of an array shape and is a \<open>nat\<close>.
\<close>

subsection \<open>Data\<close>

record EnvState =
  need_umbrella :: "32 word"
  has_umbrella :: "32 word"
  total_regret :: "32 word"
  time :: int

record EnvParams =
  chain_length :: int
  max_steps_in_episode :: int

definition default_params :: EnvParams where
  "default_params = \<lparr>chain_length = 10, max_steps_in_episode = 100\<rparr>"

datatype error = ZeroDivisionError

text \<open>
  The random number library. \<open>random_split r key num i\<close> is child \<open>i\<close> of
  \<open>jax.random.split(key, num)\<close>; \<open>random_bernoulli r key\<close> is the draw of shape \<open>()\<close>;
  \<open>random_bernoulli_shape r key n i\<close> is entry \<open>i\<close> of the draw of shape \<open>(n,)\<close>.
\<close>

record 'k random =
  random_split :: "'k \<Rightarrow> nat \<Rightarrow> nat \<Rightarrow> 'k"
  random_bernoulli :: "'k \<Rightarrow> bool"
  random_bernoulli_shape :: "'k \<Rightarrow> nat \<Rightarrow> nat \<Rightarrow> bool"

type_synonym observation = "rat list list"

type_synonym step_result = "observation \<times> EnvState \<times> 32 word \<times> bool \<times> (string \<rightharpoonup> rat)"

subsection \<open>Arrays\<close>

text \<open>\<open>jnp.zeros(shape=(rows, cols))\<close>.\<close>

definition zeros :: "nat \<Rightarrow> nat \<Rightarrow> observation" where
  "zeros rows cols = replicate rows (replicate cols 0)"

text \<open>\<open>obs.at[i, j].set(v)\<close>: the shape never changes; an index out of range updates nothing.\<close>

definition at_set :: "observation \<Rightarrow> nat \<Rightarrow> nat \<Rightarrow> rat \<Rightarrow> observation" where
  "at_set obs i j v = (if i < length obs then obs[i := (obs ! i)[j := v]] else obs)"

text \<open>
  \<open>obs.at[i, j:].set(vs)\<close> for a vector \<open>vs\<close>: the entries from column \<open>j\<close> on are
  replaced, the shape is kept.
\<close>

definition set_slice_from :: "nat \<Rightarrow> rat list \<Rightarrow> rat list \<Rightarrow> rat list" where
  "set_slice_from j vs row = take j row @ take (length row - j) vs @ drop (j + length vs) row"

definition at_set_from :: "observation \<Rightarrow> nat \<Rightarrow> nat \<Rightarrow> rat list \<Rightarrow> observation" where
  "at_set_from obs i j vs = (if i < length obs then obs[i := set_slice_from j vs (obs ! i)] else obs)"

subsection \<open>The environment\<close>

definition is_terminal :: "EnvState \<Rightarrow> EnvParams \<Rightarrow> bool" where
  "is_terminal state params =
     (let done_steps = (time state \<ge> max_steps_in_episode params);
          done_chain = (time state = chain_length params)
      in done_steps \<or> done_chain)"

text \<open>
  Modelled from the spec: \<open>Environment.discount\<close> of the base class, which is not among
  the sources; the spec gives \<open>discount = 0\<close> in a terminal state and \<open>1\<close> otherwise.
\<close>

definition discount :: "EnvState \<Rightarrow> EnvParams \<Rightarrow> rat" where
  "discount state params = (if is_terminal state params then 0 else 1)"

definition get_obs :: "'k random \<Rightarrow> nat \<Rightarrow> EnvState \<Rightarrow> 'k \<Rightarrow> EnvParams \<Rightarrow> error + observation" where
  "get_obs rnd n_distractor state key params =
     (let obs = zeros 1 (3 + n_distractor);
          obs = at_set obs 0 0 (of_int (sint (need_umbrella state)));
          obs = at_set obs 0 1 (of_int (sint (has_umbrella state)))
      in if chain_length params = 0 then Inl ZeroDivisionError
         else
           let obs = at_set obs 0 2 (1 - of_int (time state) / of_int (chain_length params));
               obs = at_set_from obs 0 3
                       (map (\<lambda>i. of_bool (random_bernoulli_shape rnd key n_distractor i))
                            [0..<n_distractor])
           in Inr obs)"

definition step_env ::
  "'k random \<Rightarrow> nat \<Rightarrow> 'k \<Rightarrow> EnvState \<Rightarrow> 32 word \<Rightarrow> EnvParams \<Rightarrow> error + step_result" where
  "step_env rnd n_distractor key state action params =
     (let carried = (if time state + 1 = 1 then action else has_umbrella state);
          reward = (0 :: 32 word);
          chain_full = (time state + 1 = chain_length params);
          has_need = (carried = need_umbrella state);
          reward = reward + of_bool (chain_full \<and> has_need);
          reward = reward - of_bool (chain_full \<and> (1 - of_bool has_need :: 32 word) \<noteq> 0);
          regret = total_regret state
                     + 2 * of_bool (chain_full \<and> (1 - of_bool has_need :: 32 word) \<noteq> 0);
          key_reward = random_split rnd key 2 0;
          key_distractor = random_split rnd key 2 1;
          random_rew = 2 * of_bool (random_bernoulli rnd key_reward) - 1;
          reward = reward + (1 - of_bool chain_full) * random_rew;
          state' = \<lparr>need_umbrella = need_umbrella state, has_umbrella = carried,
                    total_regret = regret, time = time state + 1\<rparr>;
          terminal = is_terminal state' params;
          info = [''discount'' \<mapsto> discount state' params]
      in case get_obs rnd n_distractor state' key_distractor params of
           Inl e \<Rightarrow> Inl e
         | Inr obs \<Rightarrow> Inr (obs, state', reward, terminal, info))"

definition reset_env :: "'k random \<Rightarrow> nat \<Rightarrow> 'k \<Rightarrow> EnvParams \<Rightarrow> error + observation \<times> EnvState" where
  "reset_env rnd n_distractor key params =
     (let key_need = random_split rnd key 3 0;
          key_has = random_split rnd key 3 1;
          key_distractor = random_split rnd key 3 2;
          need = of_bool (random_bernoulli rnd key_need);
          has = of_bool (random_bernoulli rnd key_has);
          state = \<lparr>need_umbrella = need, has_umbrella = has, total_regret = 0, time = 0\<rparr>
      in case get_obs rnd n_distractor state key_distractor params of
           Inl e \<Rightarrow> Inl e
         | Inr obs \<Rightarrow> Inr (obs, state))"




subsection \<open>Step sequences\<close>

text \<open>
  The components of a step's result, and a caller's loop: \<open>run_steps\<close> feeds the state
  returned by each call of \<open>step_env\<close> to the next one, with one key and one action per
  call, and collects the results. An exception ends the loop.
\<close>

definition out_obs :: "step_result \<Rightarrow> observation" where
  "out_obs out = fst out"

definition out_state :: "step_result \<Rightarrow> EnvState" where
  "out_state out = fst (snd out)"

definition out_reward :: "step_result \<Rightarrow> 32 word" where
  "out_reward out = fst (snd (snd out))"

definition out_done :: "step_result \<Rightarrow> bool" where
  "out_done out = fst (snd (snd (snd out)))"

definition out_info :: "step_result \<Rightarrow> (string \<rightharpoonup> rat)" where
  "out_info out = snd (snd (snd (snd out)))"

fun run_steps ::
  "'k random \<Rightarrow> nat \<Rightarrow> EnvParams \<Rightarrow> EnvState \<Rightarrow> ('k \<times> 32 word) list \<Rightarrow> error + step_result list" where
  "run_steps rnd n params state [] = Inr []"
| "run_steps rnd n params state ((key, action) # rest) =
     (case step_env rnd n key state action params of
        Inl e \<Rightarrow> Inl e
      | Inr out \<Rightarrow>
          (case run_steps rnd n params (out_state out) rest of
             Inl e \<Rightarrow> Inl e
           | Inr outs \<Rightarrow> Inr (out # outs)))"

text \<open>
  A concrete random number library on natural-number keys, for running the model on
  examples: the children of a key are the numbers that follow it, a draw is a parity.
\<close>

definition sample_random :: "nat random" where
  "sample_random =
     \<lparr>random_split = (\<lambda>key num i. key + num + i),
      random_bernoulli = (\<lambda>key. even key),
      random_bernoulli_shape = (\<lambda>key n i. even (key + i))\<rparr>"


section \<open>Closed forms\<close>

lemma replicate_3_plus: "replicate (3 + n) x = x # x # x # replicate n x"
  by (simp add: numeral_3_eq_3)

lemma get_obs_eq:
  "get_obs rnd n state key params =
     (if chain_length params = 0 then Inl ZeroDivisionError
      else Inr [[of_int (sint (need_umbrella state)), of_int (sint (has_umbrella state)),
                 1 - of_int (time state) / of_int (chain_length params)]
                @ map (\<lambda>i. of_bool (random_bernoulli_shape rnd key n i)) [0..<n]])"
  by (simp add: get_obs_def zeros_def at_set_def at_set_from_def replicate_3_plus
      set_slice_from_def numeral_2_eq_2 numeral_3_eq_3 Let_def)

lemma word_one_minus_of_bool: "((1 - of_bool b :: 32 word) \<noteq> 0) = (\<not> b)"
  by (cases b) simp_all

lemma step_env_eq:
  "step_env rnd n key state action params =
     (let carried = (if time state = 0 then action else has_umbrella state);
          chain_full = (time state + 1 = chain_length params);
          has_need = (carried = need_umbrella state);
          state' = \<lparr>need_umbrella = need_umbrella state, has_umbrella = carried,
                    total_regret = (if chain_full \<and> \<not> has_need then total_regret state + 2
                                    else total_regret state),
                    time = time state + 1\<rparr>
      in if chain_length params = 0 then Inl ZeroDivisionError
         else
             Inr ([[of_int (sint (need_umbrella state)), of_int (sint carried),
                    1 - of_int (time state + 1) / of_int (chain_length params)]
                   @ map (\<lambda>i. of_bool (random_bernoulli_shape rnd (random_split rnd key 2 1) n i))
                       [0..<n]],
                  state',
                  (if chain_full then (if has_need then 1 else - 1)
                   else if random_bernoulli rnd (random_split rnd key 2 0) then 1 else - 1),
                  is_terminal state' params,
                  [''discount'' \<mapsto> discount state' params]))"
  unfolding step_env_def Let_def get_obs_eq word_one_minus_of_bool
  by simp

lemma step_env_Inl:
  "chain_length params = 0 \<Longrightarrow> step_env rnd n key state action params = Inl ZeroDivisionError"
  by (simp add: step_env_eq Let_def)

lemma step_env_total:
  "chain_length params \<noteq> 0 \<Longrightarrow> \<exists>out. step_env rnd n key state action params = Inr out"
  by (simp add: step_env_eq Let_def)

lemma step_env_InrD:
  assumes "step_env rnd n key state action params = Inr (obs, state', reward, terminal, info)"
  shows "chain_length params \<noteq> 0"
    and "need_umbrella state' = need_umbrella state"
    and "has_umbrella state' = (if time state = 0 then action else has_umbrella state)"
    and "time state' = time state + 1"
    and "total_regret state' =
           (if time state + 1 = chain_length params \<and> has_umbrella state' \<noteq> need_umbrella state
            then total_regret state + 2 else total_regret state)"
    and "reward =
           (if time state + 1 = chain_length params
            then (if has_umbrella state' = need_umbrella state then 1 else - 1)
            else if random_bernoulli rnd (random_split rnd key 2 0) then 1 else - 1)"
    and "terminal = is_terminal state' params"
    and "info = [''discount'' \<mapsto> discount state' params]"
    and "obs = [[of_int (sint (need_umbrella state')), of_int (sint (has_umbrella state')),
                 1 - of_int (time state') / of_int (chain_length params)]
                @ map (\<lambda>i. of_bool (random_bernoulli_shape rnd (random_split rnd key 2 1) n i))
                    [0..<n]]"
  using assms by (auto simp: step_env_eq Let_def split: if_splits)

lemma reset_env_eq:
  "reset_env rnd n key params =
     (if chain_length params = 0 then Inl ZeroDivisionError
      else Inr ([[of_bool (random_bernoulli rnd (random_split rnd key 3 0)),
                  of_bool (random_bernoulli rnd (random_split rnd key 3 1)), 1]
                 @ map (\<lambda>i. of_bool (random_bernoulli_shape rnd (random_split rnd key 3 2) n i))
                     [0..<n]],
                \<lparr>need_umbrella = of_bool (random_bernoulli rnd (random_split rnd key 3 0)),
                 has_umbrella = of_bool (random_bernoulli rnd (random_split rnd key 3 1)),
                 total_regret = 0, time = 0\<rparr>))"
  unfolding reset_env_def Let_def get_obs_eq by simp


lemma upt_0_2: "[0..<2] = [0, 1]"
  by (simp add: numeral_2_eq_2)

lemmas sample_eval =
  step_env_eq reset_env_eq sample_random_def is_terminal_def discount_def Let_def

section \<open>A single step\<close>

text \<open>
  Claim C1. On a step that completes the chain (\<open>state.time + 1 == params.chain_length\<close>):
  if the carried bit after the update, which is the \<open>has_umbrella\<close> of the returned state,
  equals \<open>state.need_umbrella\<close>, the returned reward is \<open>+1\<close> and \<open>total_regret\<close> is
  unchanged; otherwise the reward is \<open>-1\<close> and the new \<open>total_regret\<close> is
  \<open>state.total_regret + 2\<close>. The sum is the int32 addition that the source performs.
\<close>

theorem step_env_chain_complete:
  assumes "step_env rnd n key state action params = Inr (obs, state', reward, terminal, info)"
    and "time state + 1 = chain_length params"
  shows "if has_umbrella state' = need_umbrella state
         then reward = 1 \<and> sint reward = 1 \<and> total_regret state' = total_regret state
         else reward = - 1 \<and> sint reward = - 1 \<and> total_regret state' = total_regret state + 2"
  using step_env_InrD(5,6)[OF assms(1)] assms(2) by simp

theorem step_env_chain_complete_witness:
  "step_env sample_random 0 (0::nat)
      \<lparr>need_umbrella = 1, has_umbrella = 0, total_regret = 0, time = 0\<rparr> 0
      \<lparr>chain_length = 1, max_steps_in_episode = 100\<rparr>
    = Inr ([[1, 0, 0]], \<lparr>need_umbrella = 1, has_umbrella = 0, total_regret = 2, time = 1\<rparr>,
           - 1, True, [''discount'' \<mapsto> 0])
   \<and> time \<lparr>need_umbrella = 1, has_umbrella = 0, total_regret = 0, time = 0\<rparr> + 1
       = chain_length \<lparr>chain_length = 1, max_steps_in_episode = 100\<rparr>
   \<and> sint (- 1 :: 32 word) = - 1"
proof -
  have h1: "step_env sample_random 0 (0::nat)
      \<lparr>need_umbrella = 1, has_umbrella = 0, total_regret = 0, time = 0\<rparr> 0
      \<lparr>chain_length = 1, max_steps_in_episode = 100\<rparr>
    = Inr ([[1, 0, 0]], \<lparr>need_umbrella = 1, has_umbrella = 0, total_regret = 2, time = 1\<rparr>,
           - 1, True, [''discount'' \<mapsto> 0])"
    by (simp add: sample_eval)
  have h2: "time \<lparr>need_umbrella = 1, has_umbrella = 0, total_regret = 0, time = 0\<rparr> + 1
       = chain_length \<lparr>chain_length = 1, max_steps_in_episode = 100\<rparr>"
    by simp
  from step_env_chain_complete [OF h1 h2] show ?thesis using h1 by simp
qed

text \<open>
  Claim C5. Every step leaves \<open>need_umbrella\<close> unchanged, sets \<open>has_umbrella\<close> to the
  action when \<open>state.time + 1 == 1\<close> and keeps the old \<open>has_umbrella\<close> on every other
  step, and increments \<open>time\<close> by exactly 1.
\<close>

theorem step_env_frame:
  assumes "step_env rnd n key state action params = Inr (obs, state', reward, terminal, info)"
  shows "need_umbrella state' = need_umbrella state
       \<and> has_umbrella state' = (if time state + 1 = 1 then action else has_umbrella state)
       \<and> time state' = time state + 1"
  using step_env_InrD(2,3,4)[OF assms] by simp

theorem step_env_frame_witness:
  "step_env sample_random 0 (0::nat)
      \<lparr>need_umbrella = 1, has_umbrella = 0, total_regret = 0, time = 1\<rparr> 1
      \<lparr>chain_length = 3, max_steps_in_episode = 100\<rparr>
    = Inr ([[1, 0, 1 / 3]], \<lparr>need_umbrella = 1, has_umbrella = 0, total_regret = 0, time = 2\<rparr>,
           1, False, [''discount'' \<mapsto> 1])
   \<and> time \<lparr>need_umbrella = 1, has_umbrella = 0, total_regret = 0, time = 2\<rparr> = 1 + 1"
proof -
  have h1: "step_env sample_random 0 (0::nat)
      \<lparr>need_umbrella = 1, has_umbrella = 0, total_regret = 0, time = 1\<rparr> 1
      \<lparr>chain_length = 3, max_steps_in_episode = 100\<rparr>
    = Inr ([[1, 0, 1 / 3]], \<lparr>need_umbrella = 1, has_umbrella = 0, total_regret = 0, time = 2\<rparr>,
           1, False, [''discount'' \<mapsto> 1])"
    by (simp add: sample_eval)
  from step_env_frame [OF h1] show ?thesis using h1 by simp
qed

text \<open>
  Claim C8. The reward returned by a step is exactly \<open>+1\<close> or exactly \<open>-1\<close>, never 0: on
  the chain-completing step it is the match/mismatch reward, on every other step it is
  the noise draw mapped to \<open>+1\<close> (draw true) or \<open>-1\<close> (draw false).
\<close>

theorem step_env_reward_range:
  assumes "step_env rnd n key state action params = Inr (obs, state', reward, terminal, info)"
  shows "(reward = 1 \<or> reward = - 1) \<and> (sint reward = 1 \<or> sint reward = - 1) \<and> reward \<noteq> 0
       \<and> (time state + 1 = chain_length params \<longrightarrow>
            reward = (if has_umbrella state' = need_umbrella state then 1 else - 1))
       \<and> (time state + 1 \<noteq> chain_length params \<longrightarrow>
            reward = (if random_bernoulli rnd (random_split rnd key 2 0) then 1 else - 1))"
  using step_env_InrD(6)[OF assms] by auto

theorem step_env_reward_range_witness:
  "step_env sample_random 0 (1::nat)
      \<lparr>need_umbrella = 1, has_umbrella = 1, total_regret = 0, time = 1\<rparr> 0
      \<lparr>chain_length = 3, max_steps_in_episode = 100\<rparr>
    = Inr ([[1, 1, 1 / 3]], \<lparr>need_umbrella = 1, has_umbrella = 1, total_regret = 0, time = 2\<rparr>,
           - 1, False, [''discount'' \<mapsto> 1])
   \<and> random_bernoulli sample_random (random_split sample_random (1::nat) 2 0) = False
   \<and> sint (- 1 :: 32 word) = - 1"
proof -
  have h1: "step_env sample_random 0 (1::nat)
      \<lparr>need_umbrella = 1, has_umbrella = 1, total_regret = 0, time = 1\<rparr> 0
      \<lparr>chain_length = 3, max_steps_in_episode = 100\<rparr>
    = Inr ([[1, 1, 1 / 3]], \<lparr>need_umbrella = 1, has_umbrella = 1, total_regret = 0, time = 2\<rparr>,
           - 1, False, [''discount'' \<mapsto> 1])"
    by (simp add: sample_eval)
  from step_env_reward_range [OF h1] show ?thesis using h1 by (simp add: sample_random_def)
qed

text \<open>
  Claim C9. The next state, the done flag and the info returned by a step do not depend
  on the key; on a chain-completing step the reward does not depend on it either. The
  first three entries of the observation do not depend on it: what is left to the key is
  the distractor entries and the noise reward of a step that does not complete the chain.
\<close>

theorem step_env_key_independent:
  assumes "step_env rnd n key1 state action params = Inr (obs1, state1, reward1, terminal1, info1)"
    and "step_env rnd n key2 state action params = Inr (obs2, state2, reward2, terminal2, info2)"
  shows "state1 = state2 \<and> terminal1 = terminal2 \<and> info1 = info2
       \<and> (time state + 1 = chain_length params \<longrightarrow> reward1 = reward2)
       \<and> map (take 3) obs1 = map (take 3) obs2"
  using assms by (auto simp: step_env_eq Let_def split: if_splits)

theorem step_env_key_independent_witness:
  "step_env sample_random 1 (0::nat)
      \<lparr>need_umbrella = 1, has_umbrella = 1, total_regret = 0, time = 2\<rparr> 0
      \<lparr>chain_length = 3, max_steps_in_episode = 100\<rparr>
    = Inr ([[1, 1, 0, 0]], \<lparr>need_umbrella = 1, has_umbrella = 1, total_regret = 0, time = 3\<rparr>,
           1, True, [''discount'' \<mapsto> 0])
   \<and> step_env sample_random 1 (1::nat)
      \<lparr>need_umbrella = 1, has_umbrella = 1, total_regret = 0, time = 2\<rparr> 0
      \<lparr>chain_length = 3, max_steps_in_episode = 100\<rparr>
    = Inr ([[1, 1, 0, 1]], \<lparr>need_umbrella = 1, has_umbrella = 1, total_regret = 0, time = 3\<rparr>,
           1, True, [''discount'' \<mapsto> 0])
   \<and> map (take 3) [[1, 1, 0, 0 :: rat]] = map (take 3) [[1, 1, 0, 1]]"
proof -
  have h1: "step_env sample_random 1 (0::nat)
      \<lparr>need_umbrella = 1, has_umbrella = 1, total_regret = 0, time = 2\<rparr> 0
      \<lparr>chain_length = 3, max_steps_in_episode = 100\<rparr>
    = Inr ([[1, 1, 0, 0]], \<lparr>need_umbrella = 1, has_umbrella = 1, total_regret = 0, time = 3\<rparr>,
           1, True, [''discount'' \<mapsto> 0])"
    by (simp add: sample_eval)
  have h2: "step_env sample_random 1 (1::nat)
      \<lparr>need_umbrella = 1, has_umbrella = 1, total_regret = 0, time = 2\<rparr> 0
      \<lparr>chain_length = 3, max_steps_in_episode = 100\<rparr>
    = Inr ([[1, 1, 0, 1]], \<lparr>need_umbrella = 1, has_umbrella = 1, total_regret = 0, time = 3\<rparr>,
           1, True, [''discount'' \<mapsto> 0])"
    by (simp add: sample_eval)
  from step_env_key_independent [OF h1 h2] show ?thesis using h1 h2 by simp
qed




section \<open>Reset\<close>

text \<open>
  Claim C6. For every key and every \<open>params\<close> with \<open>chain_length > 0\<close> and
  \<open>max_steps_in_episode > 0\<close>, \<open>reset_env\<close> returns a state with \<open>time = 0\<close> and
  \<open>total_regret = 0\<close>, and \<open>is_terminal\<close> is false on that state.
\<close>

theorem reset_env_initial:
  assumes "0 < chain_length params" and "0 < max_steps_in_episode params"
  shows "\<exists>obs state. reset_env rnd n key params = Inr (obs, state)
           \<and> time state = 0 \<and> total_regret state = 0 \<and> \<not> is_terminal state params"
  using assms by (simp add: reset_env_eq is_terminal_def)

theorem reset_env_initial_witness:
  "(0::int) < chain_length default_params \<and> 0 < max_steps_in_episode default_params
   \<and> reset_env sample_random 2 (5::nat) default_params
       = Inr ([[1, 0, 1, 1, 0]],
              \<lparr>need_umbrella = 1, has_umbrella = 0, total_regret = 0, time = 0\<rparr>)
   \<and> \<not> is_terminal \<lparr>need_umbrella = 1, has_umbrella = 0, total_regret = 0, time = 0\<rparr>
          default_params"
proof -
  have h1: "0 < chain_length default_params" by (simp add: default_params_def)
  have h2: "0 < max_steps_in_episode default_params" by (simp add: default_params_def)
  have h3: "reset_env sample_random 2 (5::nat) default_params
       = Inr ([[1, 0, 1, 1, 0]],
              \<lparr>need_umbrella = 1, has_umbrella = 0, total_regret = 0, time = 0\<rparr>)"
    by (simp add: sample_eval default_params_def upt_0_2)
  from reset_env_initial [OF h1 h2, of sample_random 2 5] show ?thesis using h1 h2 h3 by simp
qed

section \<open>Observations\<close>




section \<open>Step sequences\<close>

lemma out_simps:
  "out_obs (obs, state', reward, terminal, info) = obs"
  "out_state (obs, state', reward, terminal, info) = state'"
  "out_reward (obs, state', reward, terminal, info) = reward"
  "out_done (obs, state', reward, terminal, info) = terminal"
  "out_info (obs, state', reward, terminal, info) = info"
  by (simp_all add: out_obs_def out_state_def out_reward_def out_done_def out_info_def)

lemma run_steps_Cons_Inr:
  assumes "run_steps rnd n params state ((key, action) # rest) = Inr outs"
  shows "\<exists>obs state' reward terminal info outs'.
           step_env rnd n key state action params = Inr (obs, state', reward, terminal, info)
         \<and> run_steps rnd n params state' rest = Inr outs'
         \<and> outs = (obs, state', reward, terminal, info) # outs'"
  using assms by (auto simp: out_state_def split: sum.splits)

lemma run_steps_total:
  "chain_length params \<noteq> 0 \<Longrightarrow>
   \<exists>outs. run_steps rnd n params state ins = Inr outs \<and> length outs = length ins"
proof (induction ins arbitrary: state)
  case Nil
  then show ?case by simp
next
  case (Cons x rest)
  obtain key action where x: "x = (key, action)" by (cases x)
  from Cons.prems have "\<exists>out. step_env rnd n key state action params = Inr out"
    by (rule step_env_total)
  then obtain out where st: "step_env rnd n key state action params = Inr out" ..
  from Cons.IH [OF Cons.prems] obtain outs'
    where rs: "run_steps rnd n params (out_state out) rest = Inr outs'"
      and len: "length outs' = length rest" by blast
  show ?case using x st rs len by simp
qed

lemma run_steps_length:
  "run_steps rnd n params state ins = Inr outs \<Longrightarrow> length outs = length ins"
proof (induction ins arbitrary: state outs)
  case Nil
  then show ?case by simp
next
  case (Cons x rest)
  obtain key action where x: "x = (key, action)" by (cases x)
  from run_steps_Cons_Inr [OF Cons.prems [unfolded x]] Cons.IH
  show ?case by auto
qed

lemma run_steps_nth:
  assumes "run_steps rnd n params state ins = Inr outs" and "i < length outs"
  shows "time (out_state (outs ! i)) = time state + int i + 1
       \<and> need_umbrella (out_state (outs ! i)) = need_umbrella state
       \<and> out_done (outs ! i) = is_terminal (out_state (outs ! i)) params
       \<and> out_obs (outs ! i) ! 0 ! 1 = of_int (sint (has_umbrella (out_state (outs ! i))))"
  using assms
proof (induction ins arbitrary: state outs i)
  case Nil
  then show ?case by simp
next
  case (Cons x rest)
  obtain key action where x: "x = (key, action)" by (cases x)
  from run_steps_Cons_Inr [OF Cons.prems(1) [unfolded x]]
  obtain obs state' reward terminal info outs' where
    st: "step_env rnd n key state action params = Inr (obs, state', reward, terminal, info)" and
    rs: "run_steps rnd n params state' rest = Inr outs'" and
    outs: "outs = (obs, state', reward, terminal, info) # outs'"
    by blast
  note D = step_env_InrD [OF st]
  show ?case
  proof (cases i)
    case 0
    then show ?thesis using D(2,4,7,9) outs by (simp add: out_simps)
  next
    case (Suc j)
    with Cons.prems(2) outs have j: "j < length outs'" by simp
    from Cons.IH [OF rs j] D(2,4) show ?thesis using Suc outs by simp
  qed
qed

lemma run_steps_nth_later:
  assumes "run_steps rnd n params state ins = Inr outs" and "i < length outs" and "0 < time state"
  shows "has_umbrella (out_state (outs ! i)) = has_umbrella state
       \<and> total_regret (out_state (outs ! i)) =
           (if has_umbrella state \<noteq> need_umbrella state \<and> time state < chain_length params
               \<and> chain_length params \<le> time state + int i + 1
            then total_regret state + 2 else total_regret state)
       \<and> (time state + int i + 1 = chain_length params \<longrightarrow>
            out_reward (outs ! i) = (if has_umbrella state = need_umbrella state then 1 else - 1))"
  using assms
proof (induction ins arbitrary: state outs i)
  case Nil
  then show ?case by simp
next
  case (Cons x rest)
  obtain key action where x: "x = (key, action)" by (cases x)
  from run_steps_Cons_Inr [OF Cons.prems(1) [unfolded x]]
  obtain obs state' reward terminal info outs' where
    st: "step_env rnd n key state action params = Inr (obs, state', reward, terminal, info)" and
    rs: "run_steps rnd n params state' rest = Inr outs'" and
    outs: "outs = (obs, state', reward, terminal, info) # outs'"
    by blast
  note D = step_env_InrD [OF st]
  from D(3) Cons.prems(3) have has: "has_umbrella state' = has_umbrella state" by simp
  show ?case
  proof (cases i)
    case 0
    then show ?thesis using D(5,6) has outs Cons.prems(3) by (simp add: out_simps)
  next
    case (Suc j)
    with Cons.prems(2) outs have j: "j < length outs'" by simp
    from D(4) Cons.prems(3) have pos: "0 < time state'" by simp
    from Cons.IH [OF rs j pos] D(2,4,5) has show ?thesis using Suc outs by auto
  qed
qed



text \<open>
  Claim C3, as the code has it. Along every step sequence from a reset state, with
  \<open>chain_length > 0\<close> and \<open>max_steps_in_episode > 0\<close>, step \<open>i\<close> (counted from 0) results
  in time \<open>i + 1\<close>; the done flag is false while that time is below
  \<open>min chain_length max_steps_in_episode\<close> and true when it reaches it. After that the
  flag is true exactly at the steps whose resulting time is at least
  \<open>max_steps_in_episode\<close>: it stays true when \<open>max_steps_in_episode \<le> chain_length\<close>, and
  it is false again between \<open>chain_length\<close> and \<open>max_steps_in_episode\<close> otherwise, since
  \<open>is_terminal\<close> reads the time only and \<open>step_env\<close> does not test it.
\<close>

theorem done_along_run:
  assumes "0 < chain_length params" and "0 < max_steps_in_episode params"
  shows "\<exists>obs0 state0 outs.
           reset_env rnd n key params = Inr (obs0, state0)
         \<and> run_steps rnd n params state0 ins = Inr outs
         \<and> length outs = length ins
         \<and> (\<forall>i<length outs.
              time (out_state (outs ! i)) = int i + 1
            \<and> (int i + 1 < min (chain_length params) (max_steps_in_episode params) \<longrightarrow>
                 \<not> out_done (outs ! i))
            \<and> (int i + 1 = min (chain_length params) (max_steps_in_episode params) \<longrightarrow>
                 out_done (outs ! i))
            \<and> (min (chain_length params) (max_steps_in_episode params) < int i + 1 \<longrightarrow>
                 (out_done (outs ! i) \<longleftrightarrow> max_steps_in_episode params \<le> int i + 1)))"
proof -
  from assms(1) obtain obs0 state0 where
    reset: "reset_env rnd n key params = Inr (obs0, state0)" and t0: "time state0 = 0"
    by (simp add: reset_env_eq)
  from assms(1) have "chain_length params \<noteq> 0" by simp
  then have "\<exists>outs. run_steps rnd n params state0 ins = Inr outs \<and> length outs = length ins"
    by (rule run_steps_total)
  then obtain outs where run: "run_steps rnd n params state0 ins = Inr outs"
    and len: "length outs = length ins" by blast
  have "time (out_state (outs ! i)) = int i + 1
            \<and> (int i + 1 < min (chain_length params) (max_steps_in_episode params) \<longrightarrow>
                 \<not> out_done (outs ! i))
            \<and> (int i + 1 = min (chain_length params) (max_steps_in_episode params) \<longrightarrow>
                 out_done (outs ! i))
            \<and> (min (chain_length params) (max_steps_in_episode params) < int i + 1 \<longrightarrow>
                 (out_done (outs ! i) \<longleftrightarrow> max_steps_in_episode params \<le> int i + 1))"
    if "i < length outs" for i
    using run_steps_nth [OF run that] t0 by (auto simp: is_terminal_def)
  with reset run len show ?thesis by blast
qed

theorem done_along_run_witness:
  "0 < chain_length \<lparr>chain_length = 2, max_steps_in_episode = 3\<rparr>
   \<and> 0 < max_steps_in_episode \<lparr>chain_length = 2, max_steps_in_episode = 3\<rparr>
   \<and> reset_env sample_random 0 (0::nat) \<lparr>chain_length = 2, max_steps_in_episode = 3\<rparr>
     = Inr ([[0, 1, 1]], \<lparr>need_umbrella = 0, has_umbrella = 1, total_regret = 0, time = 0\<rparr>)
   \<and> map_sum id (map out_done)
        (run_steps sample_random 0 \<lparr>chain_length = 2, max_steps_in_episode = 3\<rparr>
           \<lparr>need_umbrella = 0, has_umbrella = 1, total_regret = 0, time = 0\<rparr>
           [(1::nat, 0), (2, 0), (3, 0), (4, 0)])
     = Inr [False, True, True, True]"
proof -
  have h1: "0 < chain_length \<lparr>chain_length = 2, max_steps_in_episode = 3\<rparr>" by simp
  have h2: "0 < max_steps_in_episode \<lparr>chain_length = 2, max_steps_in_episode = 3\<rparr>" by simp
  have h3: "reset_env sample_random 0 (0::nat) \<lparr>chain_length = 2, max_steps_in_episode = 3\<rparr>
     = Inr ([[0, 1, 1]], \<lparr>need_umbrella = 0, has_umbrella = 1, total_regret = 0, time = 0\<rparr>)"
    by (simp add: sample_eval)
  have h4: "map_sum id (map out_done)
        (run_steps sample_random 0 \<lparr>chain_length = 2, max_steps_in_episode = 3\<rparr>
           \<lparr>need_umbrella = 0, has_umbrella = 1, total_regret = 0, time = 0\<rparr>
           [(1::nat, 0), (2, 0), (3, 0), (4, 0)])
     = Inr [False, True, True, True]"
    by (simp add: sample_eval out_simps)
  from done_along_run [OF h1 h2, of sample_random 0 0 "[(1::nat, 0), (2, 0), (3, 0), (4, 0)]"]
  show ?thesis using h1 h2 h3 h4 by simp
qed

text \<open>
  Claim C3 as stated fails: done does not remain true. With \<open>chain_length = 3\<close> and
  \<open>max_steps_in_episode = 100\<close>, four steps from a reset state return the done flags
  false, false, true, false.
\<close>

theorem done_not_absorbing_counterexample:
  "reset_env sample_random 0 (5::nat) \<lparr>chain_length = 3, max_steps_in_episode = 100\<rparr>
     = Inr ([[1, 0, 1]], \<lparr>need_umbrella = 1, has_umbrella = 0, total_regret = 0, time = 0\<rparr>)
   \<and> map_sum id (map out_done)
        (run_steps sample_random 0 \<lparr>chain_length = 3, max_steps_in_episode = 100\<rparr>
           \<lparr>need_umbrella = 1, has_umbrella = 0, total_regret = 0, time = 0\<rparr>
           [(1::nat, 1), (2, 0), (3, 0), (4, 0)])
     = Inr [False, False, True, False]"
  by (simp add: sample_eval out_simps)

text \<open>
  Claim C2. In an episode started by \<open>reset_env\<close> with
  \<open>chain_length \<le> max_steps_in_episode\<close>, take \<open>chain_length\<close> steps, the first with
  action \<open>action1\<close>, and any number of further steps. If \<open>action1\<close> equals the episode's
  \<open>need_umbrella\<close>, the reward of step \<open>chain_length\<close> is \<open>+1\<close> and \<open>total_regret\<close> is 0
  after every step. If it differs, that reward is \<open>-1\<close>, and \<open>total_regret\<close> is 0 after
  every earlier step and 2 after that step and every later one.
\<close>

theorem episode_final_reward:
  assumes reset: "reset_env rnd n key params = Inr (obs0, state0)"
    and le: "chain_length params \<le> max_steps_in_episode params"
    and len: "int (length ((key1, action1) # rest)) = chain_length params"
  shows "\<exists>outs. run_steps rnd n params state0 (((key1, action1) # rest) @ extra) = Inr outs
     \<and> length outs = length rest + 1 + length extra
     \<and> (action1 = need_umbrella state0 \<longrightarrow>
          out_reward (outs ! length rest) = 1
        \<and> (\<forall>i<length outs. total_regret (out_state (outs ! i)) = 0))
     \<and> (action1 \<noteq> need_umbrella state0 \<longrightarrow>
          out_reward (outs ! length rest) = - 1
        \<and> (\<forall>i<length outs. total_regret (out_state (outs ! i)) = (if i < length rest then 0 else 2)))"
proof -
  from reset have nz: "chain_length params \<noteq> 0" and t0: "time state0 = 0"
    and r0: "total_regret state0 = 0"
    by (auto simp: reset_env_eq split: if_splits)
  from len have cl: "chain_length params = int (length rest) + 1" by simp
  from nz have "\<exists>outs. run_steps rnd n params state0 ((key1, action1) # (rest @ extra)) = Inr outs
      \<and> length outs = length ((key1, action1) # (rest @ extra))"
    by (rule run_steps_total)
  then obtain outs where run: "run_steps rnd n params state0 ((key1, action1) # (rest @ extra)) = Inr outs"
    and lo: "length outs = length rest + 1 + length extra" by auto
  from run_steps_Cons_Inr [OF run] obtain obs s1 r1 d1 i1 outs' where
    st: "step_env rnd n key1 state0 action1 params = Inr (obs, s1, r1, d1, i1)" and
    rs: "run_steps rnd n params s1 (rest @ extra) = Inr outs'" and
    outs: "outs = (obs, s1, r1, d1, i1) # outs'"
    by blast
  note D = step_env_InrD [OF st]
  from D(3) t0 have has1: "has_umbrella s1 = action1" by simp
  from D(4) t0 have t1: "time s1 = 1" by simp
  from D(5) t0 r0 has1 cl have reg1:
    "total_regret s1 = (if rest = [] \<and> action1 \<noteq> need_umbrella state0 then 2 else 0)"
    by simp
  from D(6) t0 has1 cl have rew1:
    "rest = [] \<Longrightarrow> r1 = (if action1 = need_umbrella state0 then 1 else - 1)"
    by simp
  from lo outs have lo': "length outs' = length rest + length extra" by simp
  have later: "total_regret (out_state (outs' ! j)) =
                 (if action1 \<noteq> need_umbrella state0 \<and> length rest \<le> Suc j then 2 else 0)
             \<and> (Suc j = length rest \<longrightarrow>
                  out_reward (outs' ! j) = (if action1 = need_umbrella state0 then 1 else - 1))"
    if "j < length outs'" for j
  proof -
    from t1 have pos: "0 < time s1" by simp
    from run_steps_nth_later [OF rs that pos] has1 D(2) t1 reg1 cl
    show ?thesis by (cases "rest = []") auto
  qed
  have reward: "out_reward (outs ! length rest) = (if action1 = need_umbrella state0 then 1 else - 1)"
  proof (cases rest)
    case Nil
    then show ?thesis using rew1 outs by (simp add: out_simps)
  next
    case (Cons x xs)
    have j: "length xs < length outs'" using lo' Cons by simp
    have idx: "outs ! length rest = outs' ! length xs" using outs Cons by simp
    have "Suc (length xs) = length rest" using Cons by simp
    with later [OF j]
    have "out_reward (outs' ! length xs) = (if action1 = need_umbrella state0 then 1 else - 1)"
      by blast
    then show ?thesis unfolding idx .
  qed
  have regret: "total_regret (out_state (outs ! i)) =
                  (if action1 \<noteq> need_umbrella state0 \<and> length rest \<le> i then 2 else 0)"
    if "i < length outs" for i
  proof (cases i)
    case 0
    then show ?thesis using reg1 outs by (simp add: out_simps)
  next
    case (Suc j)
    with that outs have "j < length outs'" by simp
    from later [OF this] show ?thesis using Suc outs by simp
  qed
  from run have run': "run_steps rnd n params state0 (((key1, action1) # rest) @ extra) = Inr outs"
    by simp
  show ?thesis using run' lo reward regret by (intro exI [of _ outs]) auto
qed

theorem episode_final_reward_witness:
  "reset_env sample_random 0 (5::nat) \<lparr>chain_length = 3, max_steps_in_episode = 100\<rparr>
     = Inr ([[1, 0, 1]], \<lparr>need_umbrella = 1, has_umbrella = 0, total_regret = 0, time = 0\<rparr>)
   \<and> chain_length \<lparr>chain_length = 3, max_steps_in_episode = 100\<rparr>
       \<le> max_steps_in_episode \<lparr>chain_length = 3, max_steps_in_episode = 100\<rparr>
   \<and> int (length [(1::nat, 0 :: 32 word), (2, 1), (3, 1)])
       = chain_length \<lparr>chain_length = 3, max_steps_in_episode = 100\<rparr>
   \<and> map_sum id (map out_reward)
        (run_steps sample_random 0 \<lparr>chain_length = 3, max_steps_in_episode = 100\<rparr>
           \<lparr>need_umbrella = 1, has_umbrella = 0, total_regret = 0, time = 0\<rparr>
           ([(1::nat, 0), (2, 1), (3, 1)] @ [(4, 1)]))
     = Inr [- 1, 1, - 1, 1]
   \<and> map_sum id (map (total_regret \<circ> out_state))
        (run_steps sample_random 0 \<lparr>chain_length = 3, max_steps_in_episode = 100\<rparr>
           \<lparr>need_umbrella = 1, has_umbrella = 0, total_regret = 0, time = 0\<rparr>
           ([(1::nat, 0), (2, 1), (3, 1)] @ [(4, 1)]))
     = Inr [0, 0, 2, 2]"
proof -
  have h1: "reset_env sample_random 0 (5::nat) \<lparr>chain_length = 3, max_steps_in_episode = 100\<rparr>
     = Inr ([[1, 0, 1]], \<lparr>need_umbrella = 1, has_umbrella = 0, total_regret = 0, time = 0\<rparr>)"
    by (simp add: sample_eval)
  have h2: "chain_length \<lparr>chain_length = 3, max_steps_in_episode = 100\<rparr>
       \<le> max_steps_in_episode \<lparr>chain_length = 3, max_steps_in_episode = 100\<rparr>"
    by simp
  have h3: "int (length [(1::nat, 0 :: 32 word), (2, 1), (3, 1)])
       = chain_length \<lparr>chain_length = 3, max_steps_in_episode = 100\<rparr>"
    by simp
  have h4: "map_sum id (map out_reward)
        (run_steps sample_random 0 \<lparr>chain_length = 3, max_steps_in_episode = 100\<rparr>
           \<lparr>need_umbrella = 1, has_umbrella = 0, total_regret = 0, time = 0\<rparr>
           ([(1::nat, 0), (2, 1), (3, 1)] @ [(4, 1)]))
     = Inr [- 1, 1, - 1, 1]"
    by (simp add: sample_eval out_simps)
  have h5: "map_sum id (map (total_regret \<circ> out_state))
        (run_steps sample_random 0 \<lparr>chain_length = 3, max_steps_in_episode = 100\<rparr>
           \<lparr>need_umbrella = 1, has_umbrella = 0, total_regret = 0, time = 0\<rparr>
           ([(1::nat, 0), (2, 1), (3, 1)] @ [(4, 1)]))
     = Inr [0, 0, 2, 2]"
    by (simp add: sample_eval out_simps)
  from episode_final_reward [OF h1 h2 h3, of "[(4, 1)]"] show ?thesis using h1 h2 h3 h4 h5 by simp
qed

end
